theory Spec2Isabelle
  imports
    Complex_Main
    "HOL-Library.Multiset"
    "HOL-Library.Char_ord"
    "HOL-Library.List_Lexorder"
begin

section \<open>Whitelist merging (merge\_whitelist)\<close>

text \<open>
  A whitelist file is a list of lines, one barcode per line.  The two pipelines merge the
  chunk-local whitelist files with a shell statement:

  \<^item> \<^verbatim>\<open>pipeline_singlecell.py\<close>: \<^verbatim>\<open>cat %(whitelist_files)s | sort | uniq > %(outfile)s\<close>
  \<^item> \<^verbatim>\<open>pipeline_10x.py\<close>: \<^verbatim>\<open>cat %(whitelist_files)s  > %(outfile)s\<close>

  The argument \<open>whitelists\<close> below is the list of the contents of the files named by the
  Python list \<open>whitelists\<close>, in that order.  \<open>sort\<close> is the library's stable sort on
  the lexicographic order of strings (byte order of the characters).
\<close>

type_synonym line = string

definition cat :: "line list list \<Rightarrow> line list" where
  "cat files = concat files"

text \<open>\<^verbatim>\<open>uniq\<close>: drop every line that repeats the line before it.\<close>

fun uniq :: "line list \<Rightarrow> line list" where
  "uniq [] = []"
| "uniq [x] = [x]"
| "uniq (x # y # xs) = (if x = y then uniq (y # xs) else x # uniq (y # xs))"

definition merge_whitelist_singlecell :: "line list list \<Rightarrow> line list" where
  "merge_whitelist_singlecell whitelists = uniq (sort (cat whitelists))"

definition merge_whitelist_10x :: "line list list \<Rightarrow> line list" where
  "merge_whitelist_10x whitelists = cat whitelists"


section \<open>The task graphs of the two pipelines\<close>

text \<open>
  Both pipelines are Ruffus task graphs: the decorators of each task function name its
  upstream tasks (\<^verbatim>\<open>@transform(t, ...)\<close>, \<^verbatim>\<open>@merge(t, ...)\<close>, \<^verbatim>\<open>@follows(t)\<close>;
  \<^verbatim>\<open>@follows(mkdir(...))\<close> names no task).  The task names are those of the Python
  functions, capitalised.
\<close>

datatype task =
    Split_fastq | Correct_polyA | Identify_bcumi | Merge_whitelist | Correct_reads
  | Merge_correct_reads | Mapping | Run_samtools | Add_xt_tag | Count | Convert_tomtx
  | Merge_uncorrect_reads | Mapping_trimer | Collapse_reads | Merge_singlenuc_reads
  | Mapping_collapsed | Run_samtools_collapsed | Add_xt_tag_collapsed | Count_collapsed
  | Convert_tomtx_collapsed | Count_collapsed_direction | Convert_tomtx_directional
  | Merge_trimer_bcumi | Run_minimap2_trimer | Run_samtools_trimer | Add_xt_tag_trimer
  | Run_greedy | Full

text \<open>The decorators of \<^verbatim>\<open>pipeline_10x.py\<close>; its other tasks do not exist there.\<close>

fun upstream_10x :: "task \<Rightarrow> task list" where
  "upstream_10x Split_fastq = []"
| "upstream_10x Correct_polyA = [Split_fastq]"
| "upstream_10x Identify_bcumi = [Correct_polyA]"
| "upstream_10x Merge_whitelist = [Identify_bcumi]"
| "upstream_10x Correct_reads = [Merge_whitelist, Identify_bcumi]"
| "upstream_10x Merge_correct_reads = [Correct_reads]"
| "upstream_10x Mapping = [Merge_correct_reads]"
| "upstream_10x Run_samtools = [Mapping]"
| "upstream_10x Add_xt_tag = [Run_samtools]"
| "upstream_10x Count = [Add_xt_tag]"
| "upstream_10x Convert_tomtx = [Count]"
| "upstream_10x Full = [Convert_tomtx]"
| "upstream_10x _ = []"

text \<open>The decorators of \<^verbatim>\<open>pipeline_singlecell.py\<close>.\<close>

fun upstream_singlecell :: "task \<Rightarrow> task list" where
  "upstream_singlecell Split_fastq = []"
| "upstream_singlecell Correct_polyA = [Split_fastq]"
| "upstream_singlecell Identify_bcumi = [Correct_polyA]"
| "upstream_singlecell Merge_whitelist = [Identify_bcumi]"
| "upstream_singlecell Correct_reads = [Identify_bcumi]"
| "upstream_singlecell Merge_correct_reads = [Correct_reads]"
| "upstream_singlecell Mapping = [Merge_correct_reads]"
| "upstream_singlecell Run_samtools = [Mapping]"
| "upstream_singlecell Add_xt_tag = [Run_samtools]"
| "upstream_singlecell Count = [Add_xt_tag]"
| "upstream_singlecell Convert_tomtx = [Count]"
| "upstream_singlecell Merge_uncorrect_reads = [Identify_bcumi]"
| "upstream_singlecell Mapping_trimer = [Merge_uncorrect_reads]"
| "upstream_singlecell Collapse_reads = [Identify_bcumi]"
| "upstream_singlecell Merge_singlenuc_reads = [Collapse_reads]"
| "upstream_singlecell Mapping_collapsed = [Merge_singlenuc_reads]"
| "upstream_singlecell Run_samtools_collapsed = [Mapping_collapsed]"
| "upstream_singlecell Add_xt_tag_collapsed = [Run_samtools_collapsed]"
| "upstream_singlecell Count_collapsed = [Add_xt_tag_collapsed]"
| "upstream_singlecell Convert_tomtx_collapsed = [Count_collapsed]"
| "upstream_singlecell Count_collapsed_direction = [Add_xt_tag_collapsed]"
| "upstream_singlecell Convert_tomtx_directional = [Count_collapsed_direction]"
| "upstream_singlecell Merge_trimer_bcumi = [Correct_reads]"
| "upstream_singlecell Run_minimap2_trimer = [Merge_trimer_bcumi]"
| "upstream_singlecell Run_samtools_trimer = [Run_minimap2_trimer]"
| "upstream_singlecell Add_xt_tag_trimer = [Run_samtools_trimer]"
| "upstream_singlecell Run_greedy = [Add_xt_tag_trimer]"
| "upstream_singlecell Full =
     [Convert_tomtx_directional, Convert_tomtx_collapsed, Convert_tomtx, Run_greedy]"

text \<open>
  A job is one call of a task function.  The tasks that \<^verbatim>\<open>@transform\<close> the chunk files
  have one job per chunk (\<open>n\<close> chunks); \<^verbatim>\<open>@split\<close>, \<^verbatim>\<open>@merge\<close> and the tasks
  downstream of a merge have a single job.
\<close>

fun per_chunk :: "task \<Rightarrow> bool" where
  "per_chunk Correct_polyA = True"
| "per_chunk Identify_bcumi = True"
| "per_chunk Correct_reads = True"
| "per_chunk Collapse_reads = True"
| "per_chunk _ = False"

type_synonym job = "task \<times> nat"

definition jobs :: "nat \<Rightarrow> task \<Rightarrow> job list" where
  "jobs n t = (if per_chunk t then map (\<lambda>i. (t, i)) [0..<n] else [(t, 0)])"

text \<open>
  A run is the list of the jobs in the order they are executed.  Ruffus starts a job of a
  task only when every job of every upstream task has completed; \<open>done\<close> is the list
  of the jobs completed so far.
\<close>

fun valid_run :: "(task \<Rightarrow> task list) \<Rightarrow> nat \<Rightarrow> job list \<Rightarrow> job list \<Rightarrow> bool" where
  "valid_run up n done [] = True"
| "valid_run up n done (e # es) =
     (e \<in> set (jobs n (fst e)) \<and> e \<notin> set done
      \<and> (\<forall>u \<in> set (up (fst e)). \<forall>d \<in> set (jobs n u). d \<in> set done)
      \<and> valid_run up n (e # done) es)"

text \<open>
  Task \<open>a\<close> is a barrier for task \<open>b\<close> in a run when every job of \<open>b\<close> is executed
  after all the jobs of \<open>a\<close>.
\<close>

fun barrier :: "nat \<Rightarrow> task \<Rightarrow> task \<Rightarrow> job list \<Rightarrow> job list \<Rightarrow> bool" where
  "barrier n a b done [] = True"
| "barrier n a b done (e # es) =
     ((fst e = b \<longrightarrow> (\<forall>d \<in> set (jobs n a). d \<in> set done)) \<and> barrier n a b (e # done) es)"


section \<open>The error rates of the simulation dispatcher (general.errors)\<close>

text \<open>
  \<^verbatim>\<open>errors\<close> computes with Python floats, which are IEEE 754 binary64 numbers.  A finite
  binary64 number is \<open>m * 2 ^ e\<close> for integers \<open>m\<close> and \<open>e\<close> with \<open>\<bar>m\<bar> < 2 ^ 53\<close>; it is
  modelled as the pair \<open>(m, e)\<close>.  Every number \<^verbatim>\<open>errors\<close> handles lies between \<open>1e-5\<close>
  and \<open>10\<close>, far from the overflow and underflow thresholds, so the exponent range,
  the subnormal numbers, infinities and NaN are left out of the model.
\<close>

type_synonym double = "int \<times> int"

definition valof :: "double \<Rightarrow> rat" where
  "valof d = (case d of (m, e) \<Rightarrow>
     if 0 \<le> e then of_int (m * 2 ^ nat e) else of_int m / of_int (2 ^ nat (- e)))"

text \<open>Python's \<^verbatim>\<open><\<close> and \<^verbatim>\<open><=\<close> on floats compare the values.\<close>

definition dlt :: "double \<Rightarrow> double \<Rightarrow> bool" where
  "dlt a b = (valof a < valof b)"

definition dle :: "double \<Rightarrow> double \<Rightarrow> bool" where
  "dle a b = (valof a \<le> valof b)"

text \<open>The number of binary digits of a natural number.\<close>

function bitlen :: "nat \<Rightarrow> nat" where
  "bitlen n = (if n = 0 then 0 else Suc (bitlen (n div 2)))"
  by pat_completeness auto
termination
  by (relation "measure id") auto

declare bitlen.simps [simp del]

text \<open>\<open>shift_ratio p q e\<close> is the ratio \<open>p / q\<close> divided by \<open>2 ^ e\<close>, as a ratio.\<close>

definition shift_ratio :: "nat \<Rightarrow> nat \<Rightarrow> int \<Rightarrow> nat \<times> nat" where
  "shift_ratio p q e = (if e \<le> 0 then (p * 2 ^ nat (- e), q) else (p, q * 2 ^ nat e))"

text \<open>The integer nearest to \<open>n / d\<close>, the even one of the two when \<open>n / d\<close> is halfway.\<close>

definition round_half_even :: "nat \<Rightarrow> nat \<Rightarrow> nat" where
  "round_half_even n d =
     (let f = n div d; r = n mod d
      in if 2 * r < d then f else if d < 2 * r then f + 1
         else if even f then f else f + 1)"

text \<open>
  Rounding to nearest, ties to even, of the exact ratio \<open>p / q\<close> (\<open>q > 0\<close>) to a
  significand of 53 bits: the exponent \<open>e\<close> is chosen with
  \<open>2 ^ 52 \<le> (p / q) / 2 ^ e < 2 ^ 53\<close>, and the scaled ratio is rounded to an integer.
\<close>

definition round_ratio :: "nat \<Rightarrow> nat \<Rightarrow> double" where
  "round_ratio p q =
     (if p = 0 then (0, 0)
      else let d = int (bitlen p) - int (bitlen q);
               e = (case shift_ratio p q d of (n, dn) \<Rightarrow> if dn \<le> n then d - 52 else d - 53)
           in case shift_ratio p q e of (n, dn) \<Rightarrow> (int (round_half_even n dn), e))"

text \<open>
  A decimal literal of the source, given as the ratio \<open>p / q\<close> it denotes
  (\<^verbatim>\<open>1e-5\<close> is \<open>literal 1 100000\<close>): Python reads it as the nearest binary64 number.
\<close>

definition literal :: "int \<Rightarrow> int \<Rightarrow> double" where
  "literal p q = (case round_ratio (nat \<bar>p\<bar>) (nat q) of (m, e) \<Rightarrow> (sgn p * m, e))"

text \<open>Float multiplication: the exact product, rounded.\<close>

definition fmul :: "double \<Rightarrow> double \<Rightarrow> double" where
  "fmul a b = (case a of (m1, e1) \<Rightarrow> case b of (m2, e2) \<Rightarrow>
     (let m = m1 * m2; e = e1 + e2;
          r = (if 0 \<le> e then round_ratio (nat \<bar>m\<bar> * 2 ^ nat e) 1
               else round_ratio (nat \<bar>m\<bar>) (2 ^ nat (- e)))
      in (sgn m * fst r, snd r)))"

text \<open>
  The \<^verbatim>\<open>while e < 3e-1\<close> loop of \<^verbatim>\<open>errors\<close>, with the two lists it appends to.  The
  integers \<^verbatim>\<open>5\<close> and \<^verbatim>\<open>10\<close> are converted to floats exactly before they multiply.
  Nothing in the loop's text bounds the number of its iterations, so it is a partial
  function: \<open>None\<close> stands for a loop that never ends.
\<close>

partial_function (option) errors_loop ::
  "double \<Rightarrow> double list \<Rightarrow> double list \<Rightarrow> (double list \<times> double list) option" where
  "errors_loop e pcr_errs seq_errs =
     (if dlt e (literal 3 10) then
        (if dlt (fmul (literal 5 1) e) (literal 3 10)
         then errors_loop (fmul (literal 10 1) e)
                (pcr_errs @ [e, fmul (literal 5 2) e, fmul (literal 5 1) e,
                             fmul (literal 15 2) e])
                (seq_errs @ [e, fmul (literal 5 2) e, fmul (literal 5 1) e,
                             fmul (literal 15 2) e])
         else errors_loop (fmul (literal 10 1) e) (pcr_errs @ [e]) (seq_errs @ [e]))
      else Some (pcr_errs, seq_errs))"

definition errors :: "(double list \<times> double list) option" where
  "errors =
     (case errors_loop (literal 1 100000) [] [] of
        None \<Rightarrow> None
      | Some (pcr_errs, seq_errs) \<Rightarrow>
          Some (pcr_errs @ [literal 1 5, literal 3 10],
                seq_errs @ [literal 1 5, literal 3 10]))"


section \<open>Trimer decoding\<close>

text \<open>
  \<^verbatim>\<open>correct_reads\<close> of \<^verbatim>\<open>pipeline_singlecell.py\<close> ("Correct the barcodes using majority
  vote") runs the script \<^verbatim>\<open>correct_barcode_nano.py\<close>, and \<^verbatim>\<open>correct_reads\<close> of
  \<^verbatim>\<open>pipeline_10x.py\<close> runs \<^verbatim>\<open>correct_10xbarcode.py\<close>.  Neither script is among the
  source files, so the decoder and the corrector are modelled from the specification.
\<close>

text \<open>Modelled from the spec: the error kinds of section 7 (no source file declares them).\<close>

datatype error =
    UnanchoredRead | TruncatedWindow | AmbiguousTriplet
  | NoWhitelistMatch | AmbiguousCorrection | MalformedFeatureTag

text \<open>
  Modelled from the spec: the outcome of one triplet (section 4.2), a base with its
  agreement count, or no majority; the script \<^verbatim>\<open>correct_barcode_nano.py\<close> is missing.
\<close>

datatype symbol = Decoded char nat | Ambiguous

text \<open>
  Modelled from the spec: the majority vote of section 4.2 (missing script
  \<^verbatim>\<open>correct_barcode_nano.py\<close>).  All three bases agree: that base, confidence 3.
  Exactly two agree: the majority base, confidence 2.  All three differ: ambiguous.
\<close>

definition decode_triplet :: "char \<Rightarrow> char \<Rightarrow> char \<Rightarrow> symbol" where
  "decode_triplet a b c =
     (if a = b \<and> b = c then Decoded a 3
      else if a = b \<or> a = c then Decoded a 2
      else if b = c then Decoded b 2
      else Ambiguous)"

text \<open>
  Modelled from the spec: the window is read as consecutive triplets (section 4.2:
  "read the next 3 x L bases as L triplets").
\<close>

fun triplets :: "string \<Rightarrow> (char \<times> char \<times> char) list" where
  "triplets (a # b # c # rest) = (a, b, c) # triplets rest"
| "triplets _ = []"

text \<open>Modelled from the spec: the outcome of every triplet of a window, by position.\<close>

definition decode_symbols :: "string \<Rightarrow> symbol list" where
  "decode_symbols w = map (\<lambda>(a, b, c). decode_triplet a b c) (triplets w)"

text \<open>
  Modelled from the spec: a decoded tag is the string of the emitted bases with their
  confidences (section 3, DecodedTag); a read with an ambiguous triplet has none.
\<close>

fun collect :: "symbol list \<Rightarrow> error + (string \<times> nat list)" where
  "collect [] = Inr ([], [])"
| "collect (Ambiguous # ss) = Inl AmbiguousTriplet"
| "collect (Decoded x k # ss) =
     (case collect ss of Inl e \<Rightarrow> Inl e | Inr (xs, ks) \<Rightarrow> Inr (x # xs, k # ks))"

text \<open>
  Modelled from the spec: decoding of a window of \<open>L\<close> symbols (section 4.2); a read with
  fewer than \<open>3 * L\<close> bases after the anchor is rejected as truncated.
\<close>

definition decode_window :: "nat \<Rightarrow> string \<Rightarrow> error + (string \<times> nat list)" where
  "decode_window L w =
     (if length w < 3 * L then Inl TruncatedWindow
      else collect (decode_symbols (take (3 * L) w)))"

text \<open>
  Two predicates on triplets, to state the claims: at least two bases of the triplet are
  \<open>x\<close>; the three bases are pairwise distinct.
\<close>

definition agrees :: "char \<Rightarrow> char \<times> char \<times> char \<Rightarrow> bool" where
  "agrees x t = (case t of (a, b, c) \<Rightarrow> (a = x \<and> b = x) \<or> (a = x \<and> c = x) \<or> (b = x \<and> c = x))"

definition all_differ :: "char \<times> char \<times> char \<Rightarrow> bool" where
  "all_differ t = (case t of (a, b, c) \<Rightarrow> a \<noteq> b \<and> b \<noteq> c \<and> a \<noteq> c)"


section \<open>Barcode correction\<close>

text \<open>
  Modelled from the spec: the distance between barcodes (section 4.4, "Hamming distance
  preferred given fixed-length barcodes"; missing script \<^verbatim>\<open>correct_10xbarcode.py\<close>).
  Positions are compared one by one; a position that only one of the two strings has
  counts as a mismatch, so that the distance is 0 for equal strings only.
\<close>

fun hamming :: "string \<Rightarrow> string \<Rightarrow> nat" where
  "hamming [] ys = length ys"
| "hamming xs [] = length xs"
| "hamming (x # xs) (y # ys) = (if x = y then 0 else 1) + hamming xs ys"

text \<open>
  Modelled from the spec: the minimum distance from a barcode to the whitelist entries
  (section 4.4), \<open>None\<close> for an empty whitelist.
\<close>

fun nearest_distance :: "string \<Rightarrow> string list \<Rightarrow> nat option" where
  "nearest_distance b [] = None"
| "nearest_distance b (w # ws) =
     (case nearest_distance b ws of
        None \<Rightarrow> Some (hamming b w)
      | Some d \<Rightarrow> Some (min (hamming b w) d))"

text \<open>
  Modelled from the spec: the distinct whitelist entries at distance \<open>d\<close> (the whitelist
  is a set of barcodes, section 3; its file may repeat a line).
\<close>

definition nearest_entries :: "string \<Rightarrow> string list \<Rightarrow> nat \<Rightarrow> string list" where
  "nearest_entries b W d = remdups (filter (\<lambda>w. hamming b w = d) W)"

text \<open>
  Modelled from the spec: the policy of section 4.4 (missing script
  \<^verbatim>\<open>correct_10xbarcode.py\<close>), with threshold \<open>t\<close>.  Distance 0: accept as it is.  Distance
  above the threshold: reject.  Otherwise correct to the nearest entry when it is
  unique, and reject as an ambiguous correction when several entries are equally
  close.  An empty whitelist is fatal to the run before any read is corrected
  (section 7); here no entry is within the threshold.
\<close>

definition correct_barcode :: "nat \<Rightarrow> string list \<Rightarrow> string \<Rightarrow> error + (string \<times> nat)" where
  "correct_barcode t W b =
     (case nearest_distance b W of
        None \<Rightarrow> Inl NoWhitelistMatch
      | Some d \<Rightarrow>
          if d = 0 then Inr (b, 0)
          else if t < d then Inl NoWhitelistMatch
          else (case nearest_entries b W d of
                  [w] \<Rightarrow> Inr (w, d)
                | _ \<Rightarrow> Inl AmbiguousCorrection))"


section \<open>UMI collapsing\<close>

text \<open>
  \<^verbatim>\<open>run_greedy\<close> of \<^verbatim>\<open>pipeline_singlecell.py\<close> ("Run greedy algorithm to collapse the
  UMIs") runs the script \<^verbatim>\<open>greedy_sc.py\<close>, which is not among the source files; the
  collapse is modelled from section 4.5 of the specification.
\<close>












section \<open>Properties of whitelist merging\<close>

lemma set_uniq: "set (uniq xs) = set xs"
  by (induction xs rule: uniq.induct) auto

lemma sorted_uniq: "sorted xs \<Longrightarrow> sorted (uniq xs)"
  by (induction xs rule: uniq.induct) (auto simp: set_uniq)

lemma distinct_uniq: "sorted xs \<Longrightarrow> distinct (uniq xs)"
proof (induction xs rule: uniq.induct)
  case (3 x y xs)
  then show ?case
    by (auto simp: set_uniq)
qed simp_all

lemma uniq_sorted_list_of_set: "sorted xs \<Longrightarrow> uniq xs = sorted_list_of_set (set xs)"
proof -
  assume s: "sorted xs"
  have "sorted_list_of_set (set (uniq xs)) = uniq xs"
    by (rule sorted_list_of_set.idem_if_sorted_distinct)
      (simp_all add: s sorted_uniq distinct_uniq)
  then show ?thesis
    by (simp add: set_uniq)
qed

lemma merge_singlecell_canonical:
  "merge_whitelist_singlecell ws = sorted_list_of_set (\<Union> (set ` set ws))"
  by (simp add: merge_whitelist_singlecell_def cat_def uniq_sorted_list_of_set)

lemma mset_cat: "mset (cat ws) = sum_mset (image_mset mset (mset ws))"
  by (induction ws) (simp_all add: cat_def)

lemma mset_cat_perm: "mset ws = mset ws' \<Longrightarrow> mset (cat ws) = mset (cat ws')"
  by (simp add: mset_cat)

lemma set_cat_perm: "mset ws = mset ws' \<Longrightarrow> \<Union> (set ` set ws) = \<Union> (set ` set ws')"
  by (metis mset_eq_setD)

lemma count_list_distinct:
  "distinct xs \<Longrightarrow> count_list xs b = (if b \<in> set xs then 1 else 0)"
  by (induction xs) auto

lemma count_list_concat:
  "count_list (concat ws) b = sum_list (map (\<lambda>w. count_list w b) ws)"
  by (induction ws) simp_all

text \<open>
  Claim C3 (as amended).  Merging the chunk whitelists in any permutation gives the same
  set of lines, with the same multiplicities, in both pipelines, and merging
  incrementally gives the same result as one reduction.  In the single-cell pipeline
  (\<^verbatim>\<open>cat | sort | uniq\<close>) the merged file itself is identical under every permutation
  and is sorted lexicographically without repeated lines.  In the 10x pipeline
  (\<^verbatim>\<open>cat\<close>) the merged file is the concatenation in the order of the chunks.
\<close>

theorem merge_whitelist_order_independent:
  "(\<forall>ws'. mset ws' = mset ws \<longrightarrow>
       merge_whitelist_singlecell ws' = merge_whitelist_singlecell ws
     \<and> mset (merge_whitelist_10x ws') = mset (merge_whitelist_10x ws)
     \<and> set (merge_whitelist_10x ws') = set (merge_whitelist_10x ws))
   \<and> merge_whitelist_singlecell (merge_whitelist_singlecell ws # vs)
       = merge_whitelist_singlecell (ws @ vs)
   \<and> merge_whitelist_10x (merge_whitelist_10x ws # vs) = merge_whitelist_10x (ws @ vs)
   \<and> sorted (merge_whitelist_singlecell ws)
   \<and> distinct (merge_whitelist_singlecell ws)"
proof (intro conjI allI impI)
  fix ws' assume p: "mset ws' = mset ws"
  show "merge_whitelist_singlecell ws' = merge_whitelist_singlecell ws"
    using set_cat_perm [OF p] by (simp add: merge_singlecell_canonical)
  show m: "mset (merge_whitelist_10x ws') = mset (merge_whitelist_10x ws)"
    using mset_cat_perm [OF p] by (simp add: merge_whitelist_10x_def)
  show "set (merge_whitelist_10x ws') = set (merge_whitelist_10x ws)"
    using m by (rule mset_eq_setD)
next
  have "set (merge_whitelist_singlecell ws) = \<Union> (set ` set ws)"
    by (simp add: merge_whitelist_singlecell_def cat_def set_uniq)
  then show "merge_whitelist_singlecell (merge_whitelist_singlecell ws # vs)
      = merge_whitelist_singlecell (ws @ vs)"
    by (simp add: merge_singlecell_canonical Un_commute)
next
  show "merge_whitelist_10x (merge_whitelist_10x ws # vs) = merge_whitelist_10x (ws @ vs)"
    by (simp add: merge_whitelist_10x_def cat_def)
next
  show "sorted (merge_whitelist_singlecell ws)"
    by (simp add: merge_whitelist_singlecell_def sorted_uniq)
next
  show "distinct (merge_whitelist_singlecell ws)"
    by (simp add: merge_whitelist_singlecell_def distinct_uniq)
qed

theorem merge_whitelist_order_independent_witness:
  "merge_whitelist_singlecell [[''ACGT'', ''AAGT''], [''ACGA'', ''ACGT'']]
     = merge_whitelist_singlecell [[''ACGA'', ''ACGT''], [''ACGT'', ''AAGT'']]
   \<and> merge_whitelist_singlecell [[''ACGA'', ''ACGT''], [''ACGT'', ''AAGT'']]
     = [''AAGT'', ''ACGA'', ''ACGT'']
   \<and> mset (merge_whitelist_10x [[''ACGT'', ''AAGT''], [''ACGA'', ''ACGT'']])
     = mset (merge_whitelist_10x [[''ACGA'', ''ACGT''], [''ACGT'', ''AAGT'']])"
proof -
  have p: "mset [[''ACGT'', ''AAGT''], [''ACGA'', ''ACGT'']]
      = mset [[''ACGA'', ''ACGT''], [''ACGT'', ''AAGT'']]"
    by simp
  have e: "merge_whitelist_singlecell [[''ACGA'', ''ACGT''], [''ACGT'', ''AAGT'']]
      = [''AAGT'', ''ACGA'', ''ACGT'']"
    by (simp add: merge_whitelist_singlecell_def cat_def)
  from merge_whitelist_order_independent
    [of "[[''ACGA'', ''ACGT''], [''ACGT'', ''AAGT'']]" "[]"] p e
  show ?thesis
    by blast
qed

text \<open>
  Claim C3 as stated fails on the 10x pipeline: its merged file is not sorted, and two
  orders of the same chunks give two different files.
\<close>

theorem merge_whitelist_10x_unsorted_counterexample:
  "\<not> sorted (merge_whitelist_10x [[''CCCC''], [''AAAA'']])
   \<and> merge_whitelist_10x [[''CCCC''], [''AAAA'']]
     \<noteq> merge_whitelist_10x [[''AAAA''], [''CCCC'']]"
  by (simp add: merge_whitelist_10x_def cat_def)

text \<open>
  Claim C4 (as amended).  In the single-cell pipeline the merged whitelist holds exactly
  the distinct lines of the concatenated chunk files, each exactly once, sorted, with
  no occurrence count.  In the 10x pipeline the merged whitelist is the plain
  concatenation: nothing is removed, and a barcode occurs in it as many times as it
  occurs in all the chunk files together.
\<close>

theorem merge_whitelist_contents:
  "set (merge_whitelist_singlecell ws) = \<Union> (set ` set ws)
   \<and> distinct (merge_whitelist_singlecell ws)
   \<and> count_list (merge_whitelist_singlecell ws) b
       = (if b \<in> \<Union> (set ` set ws) then 1 else 0)
   \<and> merge_whitelist_10x ws = concat ws
   \<and> count_list (merge_whitelist_10x ws) b = sum_list (map (\<lambda>w. count_list w b) ws)"
proof -
  have s: "set (merge_whitelist_singlecell ws) = \<Union> (set ` set ws)"
    by (simp add: merge_whitelist_singlecell_def cat_def set_uniq)
  have d: "distinct (merge_whitelist_singlecell ws)"
    by (simp add: merge_whitelist_singlecell_def distinct_uniq)
  have c: "count_list (merge_whitelist_singlecell ws) b
      = (if b \<in> \<Union> (set ` set ws) then 1 else 0)"
    using count_list_distinct [OF d, of b] by (simp only: s)
  show ?thesis
    using s d c by (simp add: merge_whitelist_10x_def cat_def count_list_concat)
qed

theorem merge_whitelist_contents_witness:
  "set (merge_whitelist_singlecell [[''ACGT'', ''ACGT''], [''ACGA'', ''ACGT'']])
     = {''ACGT'', ''ACGA''}
   \<and> count_list (merge_whitelist_singlecell [[''ACGT'', ''ACGT''], [''ACGA'', ''ACGT'']])
       ''ACGT'' = 1
   \<and> count_list (merge_whitelist_10x [[''ACGT'', ''ACGT''], [''ACGA'', ''ACGT'']])
       ''ACGT'' = 3"
  using merge_whitelist_contents
    [of "[[''ACGT'', ''ACGT''], [''ACGA'', ''ACGT'']]" "''ACGT''"]
  by auto

text \<open>
  Claim C4 as stated fails on both pipelines.  The 10x merge keeps duplicates; the
  single-cell merge gives the same file whether a barcode was seen once or twice, so
  its lines carry no occurrence count.
\<close>

theorem merge_whitelist_dedup_count_counterexample:
  "\<not> distinct (merge_whitelist_10x [[''ACGT''], [''ACGT'']])
   \<and> merge_whitelist_singlecell [[''ACGT''], [''ACGT'']] = [''ACGT'']
   \<and> merge_whitelist_singlecell [[''ACGT'']] = [''ACGT'']"
  by (simp add: merge_whitelist_10x_def merge_whitelist_singlecell_def cat_def)

section \<open>Properties of the task graphs\<close>

lemma upstream_barrier:
  "a \<in> set (up b) \<Longrightarrow> valid_run up n done run \<Longrightarrow> barrier n a b done run"
  by (induction run arbitrary: "done") auto

lemma barrier_prefix:
  "barrier n a b done run \<longleftrightarrow>
     (\<forall>pre e post. run = pre @ e # post \<and> fst e = b
        \<longrightarrow> set (jobs n a) \<subseteq> set done \<union> set pre)"
proof (induction run arbitrary: "done")
  case Nil
  then show ?case by simp
next
  case (Cons x run)
  note IH = Cons.IH [of "x # done"]
  show ?case
  proof
    assume b: "barrier n a b done (x # run)"
    show "\<forall>pre e post. x # run = pre @ e # post \<and> fst e = b
        \<longrightarrow> set (jobs n a) \<subseteq> set done \<union> set pre"
    proof (intro allI impI)
      fix pre e post
      assume h: "x # run = pre @ e # post \<and> fst e = b"
      show "set (jobs n a) \<subseteq> set done \<union> set pre"
      proof (cases pre)
        case Nil
        with h b show ?thesis by auto
      next
        case pre: (Cons y pre')
        with h have 1: "run = pre' @ e # post" and 2: "y = x" by auto
        from b have "barrier n a b (x # done) run" by simp
        with IH 1 h have "set (jobs n a) \<subseteq> set (x # done) \<union> set pre'" by blast
        with pre 2 show ?thesis by auto
      qed
    qed
  next
    assume r: "\<forall>pre e post. x # run = pre @ e # post \<and> fst e = b
        \<longrightarrow> set (jobs n a) \<subseteq> set done \<union> set pre"
    have 1: "fst x = b \<longrightarrow> (\<forall>d \<in> set (jobs n a). d \<in> set done)"
      using r [rule_format, of "[]" x run] by auto
    have 2: "barrier n a b (x # done) run"
      unfolding IH
    proof (intro allI impI)
      fix pre e post
      assume h: "run = pre @ e # post \<and> fst e = b"
      then show "set (jobs n a) \<subseteq> set (x # done) \<union> set pre"
        using r [rule_format, of "x # pre" e post] by auto
    qed
    from 1 2 show "barrier n a b done (x # run)" by simp
  qed
qed

text \<open>
  Claim C5 (as amended).  In the 10x pipeline every run executes each
  \<^verbatim>\<open>correct_reads\<close> job after the \<^verbatim>\<open>merge_whitelist\<close> job, which itself is executed
  after all the \<^verbatim>\<open>identify_bcumi\<close> jobs: the merge is a barrier over all the chunk-local
  outputs, and correction starts only when the merged whitelist is complete.  In the
  single-cell pipeline \<^verbatim>\<open>correct_reads\<close> (majority vote, called with no whitelist)
  waits for the \<^verbatim>\<open>identify_bcumi\<close> jobs only.
\<close>

theorem whitelist_barrier:
  "(valid_run upstream_10x n [] run \<longrightarrow>
       barrier n Merge_whitelist Correct_reads [] run
     \<and> barrier n Identify_bcumi Merge_whitelist [] run)
   \<and> (valid_run upstream_singlecell n [] run \<longrightarrow>
       barrier n Identify_bcumi Correct_reads [] run
     \<and> barrier n Identify_bcumi Merge_whitelist [] run)"
proof (intro conjI impI)
  assume v: "valid_run upstream_10x n [] run"
  show "barrier n Merge_whitelist Correct_reads [] run"
    by (rule upstream_barrier [OF _ v]) simp
  show "barrier n Identify_bcumi Merge_whitelist [] run"
    by (rule upstream_barrier [OF _ v]) simp
next
  assume v: "valid_run upstream_singlecell n [] run"
  show "barrier n Identify_bcumi Correct_reads [] run"
    by (rule upstream_barrier [OF _ v]) simp
  show "barrier n Identify_bcumi Merge_whitelist [] run"
    by (rule upstream_barrier [OF _ v]) simp
qed

theorem whitelist_barrier_witness:
  "valid_run upstream_10x 2 []
     [(Split_fastq, 0), (Correct_polyA, 1), (Correct_polyA, 0), (Identify_bcumi, 0),
      (Identify_bcumi, 1), (Merge_whitelist, 0), (Correct_reads, 1), (Correct_reads, 0)]
   \<and> barrier 2 Merge_whitelist Correct_reads []
     [(Split_fastq, 0), (Correct_polyA, 1), (Correct_polyA, 0), (Identify_bcumi, 0),
      (Identify_bcumi, 1), (Merge_whitelist, 0), (Correct_reads, 1), (Correct_reads, 0)]
   \<and> valid_run upstream_singlecell 2 []
     [(Split_fastq, 0), (Correct_polyA, 1), (Correct_polyA, 0), (Identify_bcumi, 0),
      (Identify_bcumi, 1), (Correct_reads, 1), (Merge_whitelist, 0), (Correct_reads, 0)]
   \<and> barrier 2 Identify_bcumi Correct_reads []
     [(Split_fastq, 0), (Correct_polyA, 1), (Correct_polyA, 0), (Identify_bcumi, 0),
      (Identify_bcumi, 1), (Correct_reads, 1), (Merge_whitelist, 0), (Correct_reads, 0)]"
proof -
  have a: "valid_run upstream_10x 2 []
     [(Split_fastq, 0), (Correct_polyA, 1), (Correct_polyA, 0), (Identify_bcumi, 0),
      (Identify_bcumi, 1), (Merge_whitelist, 0), (Correct_reads, 1), (Correct_reads, 0)]"
    by (simp add: jobs_def upt_conv_Cons)
  have b: "valid_run upstream_singlecell 2 []
     [(Split_fastq, 0), (Correct_polyA, 1), (Correct_polyA, 0), (Identify_bcumi, 0),
      (Identify_bcumi, 1), (Correct_reads, 1), (Merge_whitelist, 0), (Correct_reads, 0)]"
    by (simp add: jobs_def upt_conv_Cons)
  from a whitelist_barrier [of 2
     "[(Split_fastq, 0), (Correct_polyA, 1), (Correct_polyA, 0), (Identify_bcumi, 0),
      (Identify_bcumi, 1), (Merge_whitelist, 0), (Correct_reads, 1), (Correct_reads, 0)]"]
  have c: "barrier 2 Merge_whitelist Correct_reads []
     [(Split_fastq, 0), (Correct_polyA, 1), (Correct_polyA, 0), (Identify_bcumi, 0),
      (Identify_bcumi, 1), (Merge_whitelist, 0), (Correct_reads, 1), (Correct_reads, 0)]"
    by blast
  from b whitelist_barrier [of 2
     "[(Split_fastq, 0), (Correct_polyA, 1), (Correct_polyA, 0), (Identify_bcumi, 0),
      (Identify_bcumi, 1), (Correct_reads, 1), (Merge_whitelist, 0), (Correct_reads, 0)]"]
  have d: "barrier 2 Identify_bcumi Correct_reads []
     [(Split_fastq, 0), (Correct_polyA, 1), (Correct_polyA, 0), (Identify_bcumi, 0),
      (Identify_bcumi, 1), (Correct_reads, 1), (Merge_whitelist, 0), (Correct_reads, 0)]"
    by blast
  from a b c d show ?thesis by blast
qed

text \<open>
  Claim C5 as stated fails on the single-cell pipeline: the run below is a run of its
  task graph, and it corrects chunk 1 before the whitelists are merged.
\<close>

theorem singlecell_no_whitelist_barrier_counterexample:
  "valid_run upstream_singlecell 2 []
     [(Split_fastq, 0), (Correct_polyA, 1), (Correct_polyA, 0), (Identify_bcumi, 0),
      (Identify_bcumi, 1), (Correct_reads, 1), (Merge_whitelist, 0), (Correct_reads, 0)]
   \<and> \<not> barrier 2 Merge_whitelist Correct_reads []
     [(Split_fastq, 0), (Correct_polyA, 1), (Correct_polyA, 0), (Identify_bcumi, 0),
      (Identify_bcumi, 1), (Correct_reads, 1), (Merge_whitelist, 0), (Correct_reads, 0)]"
  by (simp add: jobs_def upt_conv_Cons)


section \<open>Properties of the error rates\<close>

text \<open>
  The rounding of the model is the rounding of IEEE 754 binary64, to nearest with ties
  to even: the result of \<open>round_ratio\<close>, of a literal and of a product has a
  significand between \<open>2 ^ 52\<close> and \<open>2 ^ 53\<close>, it is within half a unit in the last place
  of the exact value, and its significand is even when the exact value lies halfway
  between two neighbours.
\<close>

lemma bitlen_bounds: "0 < n \<Longrightarrow> 2 ^ (bitlen n - 1) \<le> n \<and> n < 2 ^ bitlen n"
proof (induction n rule: bitlen.induct)
  case (1 n)
  show ?case
  proof (cases "n div 2 = 0")
    case True
    with 1(2) have "n = 1" by (simp add: div_eq_0_iff) 
    then show ?thesis by (simp add: bitlen.simps)
  next
    case False
    with 1 have IH: "2 ^ (bitlen (n div 2) - 1) \<le> n div 2" "n div 2 < 2 ^ bitlen (n div 2)"
      by simp_all
    have b: "bitlen n = Suc (bitlen (n div 2))"
      using 1(2) by (subst bitlen.simps) simp
    have pos: "0 < bitlen (n div 2)"
      using False by (subst bitlen.simps) simp
    then have "(2::nat) ^ bitlen (n div 2) = 2 * 2 ^ (bitlen (n div 2) - 1)"
      by (cases "bitlen (n div 2)") simp_all
    with IH b show ?thesis by (simp; linarith)
  qed
qed

lemma powi_nonneg: "0 \<le> k \<Longrightarrow> (2::rat) powi k = 2 ^ nat k"
  by (simp add: power_int_def)

lemma powi_neg: "k < 0 \<Longrightarrow> (2::rat) powi k = 1 / 2 ^ nat (- k)"
  using power_int_minus_divide [of "2::rat" "- k"] powi_nonneg [of "- k"] by simp

lemma valof_powi: "valof (m, e) = of_int m * 2 powi e"
proof (cases "0 \<le> e")
  case True
  then show ?thesis by (simp add: valof_def powi_nonneg)
next
  case False
  then show ?thesis by (simp add: valof_def powi_neg)
qed

lemma shift_ratio_value:
  assumes "0 < q" "shift_ratio p q k = (n, dn)"
  shows "0 < dn \<and> (of_nat n / of_nat dn :: rat) = (of_nat p / of_nat q) / 2 powi k"
proof (cases "k < 0")
  case True
  with assms have "n = p * 2 ^ nat (- k)" "dn = q" by (simp_all add: shift_ratio_def)
  with assms(1) show ?thesis by (simp add: powi_neg [OF True])
next
  case False
  show ?thesis
  proof (cases "k = 0")
    case True
    with assms show ?thesis by (simp add: shift_ratio_def)
  next
    case nz: False
    with False assms have "n = p" "dn = q * 2 ^ nat k" by (simp_all add: shift_ratio_def)
    moreover have "(2::rat) powi k = 2 ^ nat k"
      using False by (simp add: powi_nonneg)
    ultimately show ?thesis using assms(1) by simp
  qed
qed

lemma round_half_even_error:
  assumes "0 < d"
  shows "\<bar>(of_nat (round_half_even n d) :: rat) - of_nat n / of_nat d\<bar> \<le> 1 / 2
    \<and> (\<bar>(of_nat (round_half_even n d) :: rat) - of_nat n / of_nat d\<bar> = 1 / 2
        \<longrightarrow> even (round_half_even n d))"
proof -
  define f r where "f = n div d" and "r = n mod d"
  have n: "n = f * d + r" and r: "r < d"
    using assms by (simp_all add: f_def r_def)
  have q: "(of_nat n / of_nat d :: rat) = of_nat f + of_nat r / of_nat d"
    using assms by (simp add: n field_simps)
  have d0: "(0::rat) < of_nat d" using assms by simp
  let ?err = "\<bar>(of_nat (round_half_even n d) :: rat) - of_nat n / of_nat d\<bar>"
  consider (lo) "2 * r < d" | (hi) "d < 2 * r" | (tie) "2 * r = d" by linarith
  then show ?thesis
  proof cases
    case lo
    then have "round_half_even n d = f"
      by (simp add: round_half_even_def Let_def f_def r_def)
    moreover from lo have "(of_nat (2 * r) :: rat) < of_nat d"
      by (simp only: of_nat_less_iff)
    then have "(of_nat r / of_nat d :: rat) < 1 / 2"
      using d0 by (simp add: field_simps)
    moreover have "(0::rat) \<le> of_nat r / of_nat d" by simp
    ultimately have "?err < 1 / 2" using q by simp
    then show ?thesis by simp
  next
    case hi
    then have "round_half_even n d = f + 1"
      by (simp add: round_half_even_def Let_def f_def r_def)
    moreover from hi have "(of_nat d :: rat) < of_nat (2 * r)"
      by (simp only: of_nat_less_iff)
    then have "(1 / 2 :: rat) < of_nat r / of_nat d"
      using d0 by (simp add: field_simps)
    moreover have "(of_nat r / of_nat d :: rat) \<le> 1"
      using r d0 by (simp add: field_simps)
    ultimately have "?err < 1 / 2" using q by simp
    then show ?thesis by simp
  next
    case tie
    then have "(of_nat (2 * r) :: rat) = of_nat d"
      by (simp only:)
    then have h: "(of_nat r / of_nat d :: rat) = 1 / 2"
      using d0 by (simp add: field_simps)
    have "round_half_even n d = (if even f then f else f + 1)"
      using tie by (simp add: round_half_even_def Let_def f_def r_def)
    then have "even (round_half_even n d)"
      and "round_half_even n d = f \<or> round_half_even n d = f + 1"
      by (simp_all split: if_splits)
    with h q show ?thesis by auto
  qed
qed

lemma bitlen_powi:
  assumes "0 < n"
  shows "2 powi (int (bitlen n) - 1) \<le> (of_nat n :: rat) \<and> (of_nat n :: rat) < 2 powi int (bitlen n)"
proof -
  from bitlen_bounds [OF assms] have lo: "2 ^ (bitlen n - 1) \<le> n" and hi: "n < 2 ^ bitlen n"
    by simp_all
  have pos: "0 < bitlen n"
    using assms by (subst bitlen.simps) simp
  then have "int (bitlen n) - 1 = int (bitlen n - 1)" by simp
  then have "(2::rat) powi (int (bitlen n) - 1) = 2 ^ (bitlen n - 1)"
    by (simp only: power_int_of_nat)
  moreover from lo have "(of_nat (2 ^ (bitlen n - 1)) :: rat) \<le> of_nat n"
    by (simp only: of_nat_le_iff)
  moreover from hi have "(of_nat n :: rat) < of_nat (2 ^ bitlen n)"
    by (simp only: of_nat_less_iff)
  ultimately show ?thesis by (simp add: power_int_of_nat)
qed

lemma powi_pos: "(0::rat) < 2 powi k"
  by (cases "0 \<le> k") (simp_all add: powi_nonneg powi_neg)

lemma powi_add: "(2::rat) powi (a + b) = 2 powi a * 2 powi b"
  by (rule power_int_add) simp

lemma powi_diff: "(2::rat) powi (a - b) = 2 powi a / 2 powi b"
  by (rule power_int_diff) simp

lemma ratio_exponent:
  assumes "0 < p" "0 < q"
  defines "d \<equiv> int (bitlen p) - int (bitlen q)"
  shows "2 powi (d - 1) < (of_nat p / of_nat q :: rat) \<and> (of_nat p / of_nat q :: rat) < 2 powi (d + 1)"
proof -
  let ?P = "(2::rat) powi int (bitlen p)" and ?Q = "(2::rat) powi int (bitlen q)"
  from bitlen_powi [OF assms(1)] have p: "?P / 2 \<le> of_nat p" "of_nat p < ?P"
    by (simp_all add: powi_diff)
  from bitlen_powi [OF assms(2)] have q: "?Q / 2 \<le> of_nat q" "of_nat q < ?Q"
    by (simp_all add: powi_diff)
  have P: "0 < ?P" and Q: "0 < ?Q" by (rule powi_pos)+
  have q0: "(0::rat) < of_nat q" using assms(2) by simp
  have 1: "2 powi (d - 1) = ?P / ?Q / 2"
    by (simp add: d_def powi_diff)
  have 2: "2 powi (d + 1) = ?P / ?Q * 2"
    by (simp add: d_def powi_diff powi_add)
  have "?P / 2 * of_nat q < of_nat p * ?Q"
  proof -
    have "?P / 2 * of_nat q < ?P / 2 * ?Q" using q(2) P by simp
    also have "\<dots> \<le> of_nat p * ?Q" using p(1) Q by simp
    finally show ?thesis .
  qed
  then have lo: "?P / ?Q / 2 < of_nat p / of_nat q"
    using Q q0 by (simp add: field_simps)
  have "of_nat p * ?Q < ?P * 2 * of_nat q"
  proof -
    have "of_nat p * ?Q < ?P * ?Q" using p(2) Q by simp
    also have "\<dots> \<le> ?P * (2 * of_nat q)" using q(1) P by simp
    finally show ?thesis by (simp add: mult.assoc)
  qed
  then have hi: "of_nat p / of_nat q < ?P / ?Q * 2"
    using Q q0 by (simp add: field_simps)
  from lo hi show ?thesis unfolding 1 2 by simp
qed


lemma scale_bounds:
  fixes z K :: rat
  assumes "0 < K" "a \<le> z" "z < b"
  shows "a * K \<le> z * K \<and> z * K < b * K"
  using assms by simp

lemma round_ratio_nearest:
  assumes "0 < p" "0 < q" "round_ratio p q = (m, e)"
  shows "2 ^ 52 \<le> m \<and> m \<le> 2 ^ 53
    \<and> \<bar>valof (m, e) - of_nat p / of_nat q\<bar> \<le> 2 powi e / 2
    \<and> (\<bar>valof (m, e) - of_nat p / of_nat q\<bar> = 2 powi e / 2 \<longrightarrow> even m)"
proof -
  define x :: rat where "x = of_nat p / of_nat q"
  define d where "d = int (bitlen p) - int (bitlen q)"
  obtain n0 dn0 where s0: "shift_ratio p q d = (n0, dn0)" by (cases "shift_ratio p q d")
  define e' where "e' = (if dn0 \<le> n0 then d - 52 else d - 53)"
  obtain n dn where s1: "shift_ratio p q e' = (n, dn)" by (cases "shift_ratio p q e'")
  from assms(1,3) have res: "m = int (round_half_even n dn)" "e = e'"
    by (simp_all add: round_ratio_def Let_def s0 s1 flip: d_def e'_def)
  from shift_ratio_value [OF assms(2) s0]
  have dn0: "0 < dn0" and v0: "(of_nat n0 / of_nat dn0 :: rat) = x / 2 powi d"
    by (simp_all add: x_def)
  from shift_ratio_value [OF assms(2) s1]
  have dn: "0 < dn" and v1: "(of_nat n / of_nat dn :: rat) = x / 2 powi e'"
    by (simp_all add: x_def)
  define y :: rat where "y = x / 2 powi e'"
  from ratio_exponent [OF assms(1,2)]
  have xlo: "2 powi d / 2 < x" and xhi: "x < 2 powi d * 2"
    by (simp_all add: x_def d_def powi_diff powi_add)
  have D: "(0::rat) < 2 powi d" by (rule powi_pos)
  have test: "dn0 \<le> n0 \<longleftrightarrow> 2 powi d \<le> x"
  proof -
    have "dn0 \<le> n0 \<longleftrightarrow> (of_nat dn0 :: rat) \<le> of_nat n0" by simp
    also have "\<dots> \<longleftrightarrow> 1 \<le> (of_nat n0 / of_nat dn0 :: rat)"
      using dn0 by (simp add: field_simps)
    also have "\<dots> \<longleftrightarrow> 2 powi d \<le> x"
      unfolding v0 using D by (simp add: field_simps)
    finally show ?thesis .
  qed
  define z where "z = x / 2 powi d"
  have y: "2 ^ 52 \<le> y \<and> y < 2 ^ 53"
  proof (cases "dn0 \<le> n0")
    case True
    then have "y = z * 2 ^ 52"
      by (simp add: y_def z_def e'_def powi_diff)
    moreover from True test have "1 \<le> z"
      using D by (simp add: z_def field_simps)
    moreover from xhi have "z < 2"
      using D by (simp add: z_def field_simps)
    ultimately show ?thesis
      using scale_bounds [of "2 ^ 52" 1 z 2] by simp
  next
    case False
    then have "y = z * 2 ^ 53"
      by (simp add: y_def z_def e'_def powi_diff)
    moreover from False test have "z < 1"
      using D by (simp add: z_def field_simps)
    moreover from xlo have "1 / 2 < z"
      using D by (simp add: z_def field_simps)
    ultimately show ?thesis
      using scale_bounds [of "2 ^ 53" "1 / 2" z 1] by simp
  qed
  have err: "\<bar>of_int m - y\<bar> \<le> 1 / 2" and tie: "\<bar>of_int m - y\<bar> = 1 / 2 \<longrightarrow> even m"
    using round_half_even_error [OF dn, of n] by (simp_all add: res y_def v1)
  have E: "(0::rat) < 2 powi e" by (rule powi_pos)
  have "valof (m, e) - x = (of_int m - y) * 2 powi e"
    using E by (simp add: valof_powi y_def res field_simps)
  then have eq: "\<bar>valof (m, e) - x\<bar> = \<bar>of_int m - y\<bar> * 2 powi e"
    using E by (simp add: abs_mult)
  have 4: "\<bar>valof (m, e) - x\<bar> = 2 powi e / 2 \<longrightarrow> even m"
    using tie E unfolding eq by simp
  have "\<bar>of_int m - y\<bar> * 2 powi e \<le> 1 / 2 * 2 powi e"
    using err E by (intro mult_right_mono) simp_all
  then have 3: "\<bar>valof (m, e) - x\<bar> \<le> 2 powi e / 2"
    unfolding eq by simp
  from err have e1: "y - 1 / 2 \<le> of_int m" and e2: "of_int m \<le> y + 1 / 2"
    by linarith+
  from y have y1: "(2 ^ 52 :: rat) \<le> y" and y2: "y < 2 ^ 53"
    by blast+
  have "(2 ^ 52 :: rat) - 1 < of_int m"
    using e1 y1 by linarith
  moreover have "(of_int m :: rat) < 2 ^ 53 + 1"
    using e2 y2 by linarith
  ultimately have "(of_int (2 ^ 52 - 1) :: rat) < of_int m"
    "(of_int m :: rat) < of_int (2 ^ 53 + 1)"
    by simp_all
  then have "2 ^ 52 - 1 < m" "m < 2 ^ 53 + 1"
    by (simp_all only: of_int_less_iff)
  then have 1: "2 ^ 52 \<le> m" and 2: "m \<le> 2 ^ 53" by simp_all
  from 1 2 3 4 show ?thesis by (simp add: x_def)
qed

lemma fmul_nearest:
  assumes "m1 * m2 \<noteq> 0" "fmul (m1, e1) (m2, e2) = (m, e)"
  shows "2 ^ 52 \<le> \<bar>m\<bar> \<and> \<bar>m\<bar> \<le> 2 ^ 53
    \<and> \<bar>valof (m, e) - valof (m1, e1) * valof (m2, e2)\<bar> \<le> 2 powi e / 2
    \<and> (\<bar>valof (m, e) - valof (m1, e1) * valof (m2, e2)\<bar> = 2 powi e / 2 \<longrightarrow> even m)"
proof -
  define M where "M = m1 * m2"
  define E where "E = e1 + e2"
  define p q where "p = (if 0 \<le> E then nat \<bar>M\<bar> * 2 ^ nat E else nat \<bar>M\<bar>)"
    and "q = (if 0 \<le> E then 1 else (2::nat) ^ nat (- E))"
  obtain a b where r: "round_ratio p q = (a, b)" by (cases "round_ratio p q")
  have res: "m = sgn M * a" "e = b"
    using assms(2) r by (auto simp: fmul_def Let_def p_def q_def M_def E_def)
  have M0: "M \<noteq> 0" using assms(1) by (simp add: M_def)
  then have p0: "0 < p" and q0: "0 < q" by (simp_all add: p_def q_def)
  have ratio: "(of_nat p / of_nat q :: rat) = of_int \<bar>M\<bar> * 2 powi E"
  proof (cases "0 \<le> E")
    case True
    then show ?thesis by (simp add: p_def q_def powi_nonneg)
  next
    case False
    then show ?thesis by (simp add: p_def q_def powi_neg)
  qed
  from round_ratio_nearest [OF p0 q0 r]
  have a: "2 ^ 52 \<le> a" "a \<le> 2 ^ 53"
    and err: "\<bar>valof (a, b) - of_int \<bar>M\<bar> * 2 powi E\<bar> \<le> 2 powi b / 2"
    and tie: "\<bar>valof (a, b) - of_int \<bar>M\<bar> * 2 powi E\<bar> = 2 powi b / 2 \<longrightarrow> even a"
    unfolding ratio by simp_all
  have prod: "valof (m1, e1) * valof (m2, e2) = of_int M * 2 powi E"
    by (simp add: valof_powi M_def E_def powi_add)
  have s: "\<bar>sgn M\<bar> = 1" using M0 by (simp add: abs_sgn_eq)
  have v: "valof (m, e) = of_int (sgn M) * valof (a, b)"
    by (simp add: res valof_powi)
  have "(of_int M :: rat) = of_int (sgn M) * of_int \<bar>M\<bar>"
    by (simp add: sgn_if)
  then have "valof (m, e) - valof (m1, e1) * valof (m2, e2)
      = of_int (sgn M) * (valof (a, b) - of_int \<bar>M\<bar> * 2 powi E)"
    unfolding prod v by (simp only: right_diff_distrib mult.assoc)
  then have eq: "\<bar>valof (m, e) - valof (m1, e1) * valof (m2, e2)\<bar>
      = \<bar>valof (a, b) - of_int \<bar>M\<bar> * 2 powi E\<bar>"
    using M0 by (simp add: abs_mult sgn_if)
  have am: "\<bar>m\<bar> = a"
    using a(1) M0 by (simp add: res abs_mult sgn_if)
  have ev: "even m \<longleftrightarrow> even a"
    using M0 by (simp add: res sgn_if)
  from a err tie show ?thesis
    unfolding eq am ev by (simp add: res)
qed

lemma literal_round:
  assumes "0 < p" "0 < q" "literal p q = (m, e)"
  shows "2 ^ 52 \<le> m \<and> m \<le> 2 ^ 53
    \<and> \<bar>valof (m, e) - of_int p / of_int q\<bar> \<le> 2 powi e / 2
    \<and> (\<bar>valof (m, e) - of_int p / of_int q\<bar> = 2 powi e / 2 \<longrightarrow> even m)"
proof -
  obtain a b where r: "round_ratio (nat \<bar>p\<bar>) (nat q) = (a, b)"
    by (cases "round_ratio (nat \<bar>p\<bar>) (nat q)")
  with assms have res: "m = a" "e = b"
    by (simp_all add: literal_def)
  from assms have "0 < nat \<bar>p\<bar>" "0 < nat q" by simp_all
  from round_ratio_nearest [OF this r] assms(1,2) show ?thesis
    by (simp add: res)
qed


lemmas double_arith =
  fmul_def round_ratio_def bitlen.simps shift_ratio_def round_half_even_def Let_def

text \<open>The literals of \<^verbatim>\<open>errors\<close> as binary64 numbers.\<close>

lemma literal_values:
  "literal 1 100000 = (5902958103587057, -69)"
  "literal 3 10 = (5404319552844595, -54)"
  "literal 1 5 = (7205759403792794, -55)"
  "literal 5 2 = (5629499534213120, -51)"
  "literal 5 1 = (5629499534213120, -50)"
  "literal 15 2 = (8444249301319680, -50)"
  "literal 10 1 = (5629499534213120, -49)"
  by (simp_all add: literal_def double_arith)

text \<open>
  They are the nearest binary64 numbers: the significand has 53 bits, and the distance
  to the decimal is at most half a unit in the last place.
\<close>

lemma literal_nearest:
  "\<bar>valof (literal 1 100000) - 1 / 100000\<bar> \<le> 1 / 2 ^ 70"
  "\<bar>valof (literal 3 10) - 3 / 10\<bar> \<le> 1 / 2 ^ 55"
  "\<bar>valof (literal 1 5) - 1 / 5\<bar> \<le> 1 / 2 ^ 56"
  "valof (literal 5 2) = 5 / 2" "valof (literal 5 1) = 5"
  "valof (literal 15 2) = 15 / 2" "valof (literal 10 1) = 10"
  by (simp_all add: literal_values valof_def)

lemma loop_full:
  "dlt e (literal 3 10) \<Longrightarrow> dlt (fmul (literal 5 1) e) (literal 3 10) \<Longrightarrow>
   errors_loop e p s = errors_loop (fmul (literal 10 1) e)
     (p @ [e, fmul (literal 5 2) e, fmul (literal 5 1) e, fmul (literal 15 2) e])
     (s @ [e, fmul (literal 5 2) e, fmul (literal 5 1) e, fmul (literal 15 2) e])"
  by (subst errors_loop.simps) simp

lemma loop_single:
  "dlt e (literal 3 10) \<Longrightarrow> \<not> dlt (fmul (literal 5 1) e) (literal 3 10) \<Longrightarrow>
   errors_loop e p s = errors_loop (fmul (literal 10 1) e) (p @ [e]) (s @ [e])"
  by (subst errors_loop.simps) simp

lemma loop_exit: "\<not> dlt e (literal 3 10) \<Longrightarrow> errors_loop e p s = Some (p, s)"
  by (subst errors_loop.simps) simp

text \<open>The products of the five iterations, one lemma for each value of \<open>e\<close>.\<close>

lemma products_0:
  "fmul (5629499534213120, -51) (5902958103587057, -69) = (7378697629483821, -68)"
  "fmul (5629499534213120, -50) (5902958103587057, -69) = (7378697629483821, -67)"
  "fmul (8444249301319680, -50) (5902958103587057, -69) = (5534023222112866, -66)"
  "fmul (5629499534213120, -49) (5902958103587057, -69) = (7378697629483821, -66)"
  by (simp_all add: double_arith)

lemma products_1:
  "fmul (5629499534213120, -51) (7378697629483821, -66) = (4611686018427388, -64)"
  "fmul (5629499534213120, -50) (7378697629483821, -66) = (4611686018427388, -63)"
  "fmul (8444249301319680, -50) (7378697629483821, -66) = (6917529027641082, -63)"
  "fmul (5629499534213120, -49) (7378697629483821, -66) = (4611686018427388, -62)"
  by (simp_all add: double_arith)

lemma products_2:
  "fmul (5629499534213120, -51) (4611686018427388, -62) = (5764607523034235, -61)"
  "fmul (5629499534213120, -50) (4611686018427388, -62) = (5764607523034235, -60)"
  "fmul (8444249301319680, -50) (4611686018427388, -62) = (8646911284551352, -60)"
  "fmul (5629499534213120, -49) (4611686018427388, -62) = (5764607523034235, -59)"
  by (simp_all add: double_arith)

lemma products_3:
  "fmul (5629499534213120, -51) (5764607523034235, -59) = (7205759403792794, -58)"
  "fmul (5629499534213120, -50) (5764607523034235, -59) = (7205759403792794, -57)"
  "fmul (8444249301319680, -50) (5764607523034235, -59) = (5404319552844595, -56)"
  "fmul (5629499534213120, -49) (5764607523034235, -59) = (7205759403792794, -56)"
  by (simp_all add: double_arith)

lemma products_4:
  "fmul (5629499534213120, -51) (7205759403792794, -56) = (4503599627370496, -54)"
  "fmul (5629499534213120, -50) (7205759403792794, -56) = (4503599627370496, -53)"
  "fmul (8444249301319680, -50) (7205759403792794, -56) = (6755399441055744, -53)"
  "fmul (5629499534213120, -49) (7205759403792794, -56) = (4503599627370496, -52)"
  by (simp_all add: double_arith)

lemma errors_value:
  "l =
    [(5902958103587057, -69),
     (7378697629483821, -68),
     (7378697629483821, -67),
     (5534023222112866, -66),
     (7378697629483821, -66),
     (4611686018427388, -64),
     (4611686018427388, -63),
     (6917529027641082, -63),
     (4611686018427388, -62),
     (5764607523034235, -61),
     (5764607523034235, -60),
     (8646911284551352, -60),
     (5764607523034235, -59),
     (7205759403792794, -58),
     (7205759403792794, -57),
     (5404319552844595, -56),
     (7205759403792794, -56),
     (7205759403792794, -55),
     (5404319552844595, -54)]
   \<Longrightarrow> errors = Some (l, l)"
  unfolding errors_def
  by (simp add: loop_full loop_single loop_exit literal_values
      products_0 products_1 products_2 products_3 products_4 dlt_def valof_def)

text \<open>
  Claim C10.  \<^verbatim>\<open>errors\<close> returns, and its two lists are equal element by element; the
  list is strictly increasing, begins with \<open>1e-5\<close>, ends with \<open>0.3\<close>, and all its elements
  lie between \<open>1e-5\<close> and \<open>0.3\<close>.
\<close>

theorem errors_lists:
  "(case errors of
      None \<Rightarrow> False
    | Some (pcr_errs, seq_errs) \<Rightarrow>
        pcr_errs = seq_errs
      \<and> sorted_wrt dlt pcr_errs
      \<and> pcr_errs \<noteq> []
      \<and> hd pcr_errs = literal 1 100000
      \<and> last pcr_errs = literal 3 10
      \<and> list_all (\<lambda>x. dle (literal 1 100000) x \<and> dle x (literal 3 10)) pcr_errs)"
  unfolding errors_value [OF refl] literal_values
  by (simp add: dlt_def dle_def valof_def)


section \<open>Properties of trimer decoding\<close>

lemma decode_agrees:
  "agrees x (a, b, c) \<Longrightarrow> decode_triplet a b c = Decoded x (if a = b \<and> b = c then 3 else 2)"
  unfolding agrees_def decode_triplet_def by (cases "a = b"; cases "b = c"; cases "a = c") auto

lemma decode_Decoded: "decode_triplet a b c = Decoded x k \<Longrightarrow> agrees x (a, b, c)"
  unfolding agrees_def decode_triplet_def by (cases "a = b"; cases "b = c"; cases "a = c") auto

lemma length_triplets: "length (triplets w) = length w div 3"
  by (induction w rule: triplets.induct) auto

lemma collect_agree:
  "list_all2 agrees s ts \<Longrightarrow>
   \<exists>ks. collect (map (\<lambda>(a, b, c). decode_triplet a b c) ts) = Inr (s, ks) \<and> length ks = length s
      \<and> list_all (\<lambda>k. 2 \<le> k \<and> k \<le> 3) ks"
proof (induction s ts rule: list_all2_induct)
  case Nil
  then show ?case by simp
next
  case (Cons x s t ts)
  obtain a b c where t: "t = (a, b, c)" by (cases t) auto
  from Cons.hyps(1) t obtain k where k: "decode_triplet a b c = Decoded x k" "2 \<le> k" "k \<le> 3"
    using decode_agrees [of x a b c] by (cases "a = b \<and> b = c") simp_all
  from Cons.IH obtain ks where "collect (map (\<lambda>(a, b, c). decode_triplet a b c) ts) = Inr (s, ks)"
    "length ks = length s" "list_all (\<lambda>k. 2 \<le> k \<and> k \<le> 3) ks" by blast
  with k t show ?case by simp
qed

lemma collect_ambiguous:
  "t \<in> set ts \<Longrightarrow> all_differ t \<Longrightarrow>
   collect (map (\<lambda>(a, b, c). decode_triplet a b c) ts) = Inl AmbiguousTriplet"
proof (induction ts)
  case Nil
  then show ?case by simp
next
  case (Cons u ts)
  obtain a b c where u: "u = (a, b, c)" by (cases u) auto
  show ?case
  proof (cases "decode_triplet a b c")
    case (Decoded x k)
    then have "\<not> all_differ u" using u decode_Decoded [of a b c x k]
      by (auto simp: agrees_def all_differ_def)
    with Cons have "collect (map (\<lambda>(a, b, c). decode_triplet a b c) ts) = Inl AmbiguousTriplet"
      by auto
    with Decoded u show ?thesis by simp
  next
    case Ambiguous
    with u show ?thesis by simp
  qed
qed

text \<open>
  Claim C2.  A triplet whose three bases agree decodes to that base with confidence 3; a
  triplet with exactly two equal bases decodes to the majority base with confidence 2,
  wherever the odd base stands; a triplet of three distinct bases is ambiguous, and a
  base is only ever emitted when at least two bases of the triplet are that base.  So a
  window in which every triplet has at most one mismatched base decodes to the encoded
  string exactly, and a window with a triplet of three distinct bases is reported as
  \<open>AmbiguousTriplet\<close>, with \<open>Ambiguous\<close> at the position of that triplet.
\<close>

theorem trimer_majority_vote:
  "decode_triplet a a a = Decoded a 3
   \<and> (a \<noteq> b \<longrightarrow> decode_triplet a a b = Decoded a 2
               \<and> decode_triplet a b a = Decoded a 2
               \<and> decode_triplet b a a = Decoded a 2)
   \<and> (all_differ (p, q, r) \<longrightarrow> decode_triplet p q r = Ambiguous)
   \<and> (decode_triplet u v y = Decoded x k \<longrightarrow> agrees x (u, v, y))
   \<and> (3 * length s \<le> length w \<and> list_all2 agrees s (triplets (take (3 * length s) w)) \<longrightarrow>
        (\<exists>ks. decode_window (length s) w = Inr (s, ks)))
   \<and> (3 * L \<le> length w' \<and> i < length (triplets (take (3 * L) w'))
        \<and> all_differ (triplets (take (3 * L) w') ! i) \<longrightarrow>
        decode_window L w' = Inl AmbiguousTriplet
        \<and> decode_symbols (take (3 * L) w') ! i = Ambiguous)"
proof (intro conjI impI)
  show "decode_triplet a a a = Decoded a 3"
    by (simp add: decode_triplet_def)
next
  assume "a \<noteq> b"
  then show "decode_triplet a a b = Decoded a 2" "decode_triplet a b a = Decoded a 2"
    "decode_triplet b a a = Decoded a 2"
    by (auto simp: decode_triplet_def)
next
  assume "all_differ (p, q, r)"
  then show "decode_triplet p q r = Ambiguous"
    by (simp add: decode_triplet_def all_differ_def)
next
  assume "decode_triplet u v y = Decoded x k"
  then show "agrees x (u, v, y)" by (rule decode_Decoded)
next
  assume h: "3 * length s \<le> length w
    \<and> list_all2 agrees s (triplets (take (3 * length s) w))"
  then obtain ks where
    "collect (map (\<lambda>(a, b, c). decode_triplet a b c) (triplets (take (3 * length s) w)))
       = Inr (s, ks)"
    using collect_agree by blast
  with h show "\<exists>ks. decode_window (length s) w = Inr (s, ks)"
    by (simp add: decode_window_def decode_symbols_def)
next
  assume h: "3 * L \<le> length w' \<and> i < length (triplets (take (3 * L) w'))
    \<and> all_differ (triplets (take (3 * L) w') ! i)"
  then have "triplets (take (3 * L) w') ! i \<in> set (triplets (take (3 * L) w'))"
    by simp
  with h show "decode_window L w' = Inl AmbiguousTriplet"
    using collect_ambiguous [of "triplets (take (3 * L) w') ! i" "triplets (take (3 * L) w')"]
    by (simp add: decode_window_def decode_symbols_def)
  obtain x y z where t: "triplets (take (3 * L) w') ! i = (x, y, z)"
    by (cases "triplets (take (3 * L) w') ! i") auto
  with h have "decode_triplet x y z = Ambiguous"
    by (simp add: decode_triplet_def all_differ_def)
  with h t show "decode_symbols (take (3 * L) w') ! i = Ambiguous"
    by (simp add: decode_symbols_def)
qed

text \<open>
  The scenario of the specification: \<open>AAA CCC GGG\<close>, also with its fifth base read as
  \<open>G\<close>, decodes to \<open>ACG\<close>; a read with the triplet \<open>ACG\<close> is ambiguous.
\<close>

theorem trimer_majority_vote_witness:
  "decode_triplet CHR ''A'' CHR ''A'' CHR ''C'' = Decoded CHR ''A'' 2
   \<and> decode_triplet CHR ''A'' CHR ''C'' CHR ''A'' = Decoded CHR ''A'' 2
   \<and> decode_triplet CHR ''C'' CHR ''A'' CHR ''A'' = Decoded CHR ''A'' 2
   \<and> decode_triplet CHR ''A'' CHR ''C'' CHR ''G'' = Ambiguous
   \<and> agrees CHR ''C'' (CHR ''C'', CHR ''G'', CHR ''C'')
   \<and> (\<exists>ks. decode_window 3 ''AAACGCGGG'' = Inr (''ACG'', ks))
   \<and> decode_window 3 ''AAAACGGGG'' = Inl AmbiguousTriplet
   \<and> decode_symbols ''AAAACGGGG'' ! 1 = Ambiguous"
proof -
  have d: "decode_triplet CHR ''C'' CHR ''G'' CHR ''C'' = Decoded CHR ''C'' 2"
    by (simp add: decode_triplet_def)
  have g: "3 * length ''ACG'' \<le> length ''AAACGCGGG''
    \<and> list_all2 agrees ''ACG'' (triplets (take (3 * length ''ACG'') ''AAACGCGGG''))"
    by (simp add: agrees_def)
  have m: "3 * 3 \<le> length ''AAAACGGGG'' \<and> 1 < length (triplets (take (3 * 3) ''AAAACGGGG''))
    \<and> all_differ (triplets (take (3 * 3) ''AAAACGGGG'') ! 1)"
    by (simp add: all_differ_def)
  have n: "all_differ (CHR ''A'', CHR ''C'', CHR ''G'')"
    by (simp add: all_differ_def)
  note T = trimer_majority_vote [of "CHR ''A''" "CHR ''C''" "CHR ''A''" "CHR ''C''" "CHR ''G''"
      "CHR ''C''" "CHR ''G''" "CHR ''C''" "CHR ''C''" 2 "''ACG''" "''AAACGCGGG''"
      3 "''AAAACGGGG''" 1]
  from T have 1: "decode_triplet CHR ''A'' CHR ''A'' CHR ''C'' = Decoded CHR ''A'' 2
     \<and> decode_triplet CHR ''A'' CHR ''C'' CHR ''A'' = Decoded CHR ''A'' 2
     \<and> decode_triplet CHR ''C'' CHR ''A'' CHR ''A'' = Decoded CHR ''A'' 2"
    by simp
  from T n have 2: "decode_triplet CHR ''A'' CHR ''C'' CHR ''G'' = Ambiguous"
    by blast
  from T d have 3: "agrees CHR ''C'' (CHR ''C'', CHR ''G'', CHR ''C'')"
    by blast
  from T g have "\<exists>ks. decode_window (length ''ACG'') ''AAACGCGGG'' = Inr (''ACG'', ks)"
    by blast
  then have 4: "\<exists>ks. decode_window 3 ''AAACGCGGG'' = Inr (''ACG'', ks)"
    by (simp add: numeral_3_eq_3)
  from T m have "decode_window 3 ''AAAACGGGG'' = Inl AmbiguousTriplet
     \<and> decode_symbols (take (3 * 3) ''AAAACGGGG'') ! 1 = Ambiguous"
    by blast
  then have 5: "decode_window 3 ''AAAACGGGG'' = Inl AmbiguousTriplet
     \<and> decode_symbols ''AAAACGGGG'' ! 1 = Ambiguous"
    by simp
  from 1 2 3 4 5 show ?thesis
    by blast
qed


section \<open>Properties of barcode correction\<close>

lemma hamming_zero_iff: "hamming x y = 0 \<longleftrightarrow> x = y"
  by (induction x y rule: hamming.induct) auto

lemma nearest_distance_Min:
  "W \<noteq> [] \<Longrightarrow> nearest_distance b W = Some (Min (hamming b ` set W))"
proof (induction W)
  case Nil
  then show ?case by simp
next
  case (Cons w ws)
  show ?case
  proof (cases "ws = []")
    case True
    then show ?thesis by simp
  next
    case False
    with Cons have "nearest_distance b ws = Some (Min (hamming b ` set ws))" by simp
    moreover have "Min (hamming b ` set (w # ws)) = min (hamming b w) (Min (hamming b ` set ws))"
      using False by (simp add: Min_insert)
    ultimately show ?thesis by simp
  qed
qed


lemma distinct_set_singleton: "distinct xs \<Longrightarrow> set xs = {w} \<Longrightarrow> xs = [w]"
proof (cases xs)
  case Nil
  assume "set xs = {w}"
  with Nil show ?thesis by simp
next
  case (Cons y ys)
  assume d: "distinct xs" and s: "set xs = {w}"
  from s Cons have y: "y = w" by auto
  from s Cons have "set ys \<subseteq> {w}" by auto
  moreover from d Cons y have "w \<notin> set ys" by simp
  ultimately have "ys = []" by (cases ys) auto
  with y Cons show ?thesis by simp
qed

lemma set_nearest_entries: "set (nearest_entries b W d) = {w \<in> set W. hamming b w = d}"
  by (simp add: nearest_entries_def)

lemma distinct_nearest_entries: "distinct (nearest_entries b W d)"
  by (simp add: nearest_entries_def)

lemma correct_in_whitelist:
  assumes "b \<in> set W"
  shows "correct_barcode t W b = Inr (b, 0)"
proof -
  from assms have ne: "W \<noteq> []" by auto
  have "hamming b b = 0" by (simp add: hamming_zero_iff)
  with assms have "0 \<in> hamming b ` set W" by force
  then have "Min (hamming b ` set W) \<le> 0" by (intro Min_le) simp_all
  then have "nearest_distance b W = Some 0"
    using nearest_distance_Min [OF ne, of b] by simp
  then show ?thesis
    by (simp add: correct_barcode_def)
qed

lemma correct_unique:
  assumes "W \<noteq> []" and "0 < d" and "d \<le> t" and "d = Min (hamming b ` set W)"
    and "w \<in> set W" and "hamming b w = d" and "\<forall>v \<in> set W. hamming b v = d \<longrightarrow> v = w"
  shows "correct_barcode t W b = Inr (w, d)"
proof -
  have "set (nearest_entries b W d) = {w}"
  proof (rule set_eqI)
    fix v
    show "v \<in> set (nearest_entries b W d) \<longleftrightarrow> v \<in> {w}"
      using assms(5,6,7) unfolding set_nearest_entries by blast
  qed
  then have ne: "nearest_entries b W d = [w]"
    by (rule distinct_set_singleton [OF distinct_nearest_entries])
  have nd: "nearest_distance b W = Some d"
    unfolding assms(4) by (rule nearest_distance_Min [OF assms(1)])
  from assms(2,3) have "d \<noteq> 0" "\<not> t < d" by simp_all
  with ne nd show ?thesis
    by (simp add: correct_barcode_def)
qed

lemma correct_tie:
  assumes "W \<noteq> []" and "d = Min (hamming b ` set W)" and "d \<le> t"
    and "w1 \<in> set W" and "w2 \<in> set W" and "w1 \<noteq> w2"
    and "hamming b w1 = d" and "hamming b w2 = d"
  shows "correct_barcode t W b = Inl AmbiguousCorrection"
proof -
  have d0: "d \<noteq> 0"
  proof
    assume "d = 0"
    with assms(7,8) have "b = w1" "b = w2" by (simp_all add: hamming_zero_iff)
    with assms(6) show False by simp
  qed
  have in1: "w1 \<in> set (nearest_entries b W d)" and in2: "w2 \<in> set (nearest_entries b W d)"
    using assms(4,5,7,8) by (simp_all add: set_nearest_entries)
  have "\<And>v. nearest_entries b W d \<noteq> [v]"
  proof
    fix v assume "nearest_entries b W d = [v]"
    with in1 in2 have "w1 = v" "w2 = v" by simp_all
    with assms(6) show False by simp
  qed
  then have ne: "(case nearest_entries b W d of [w] \<Rightarrow> Inr (w, d) | _ \<Rightarrow> Inl AmbiguousCorrection)
      = (Inl AmbiguousCorrection :: error + (string \<times> nat))"
    by (cases "nearest_entries b W d" rule: remdups_adj.cases) auto
  have nd: "nearest_distance b W = Some d"
    unfolding assms(2) by (rule nearest_distance_Min [OF assms(1)])
  from assms(3) have "\<not> t < d" by simp
  with d0 nd ne show ?thesis
    by (simp add: correct_barcode_def)
qed

lemma correct_too_far:
  assumes "W \<noteq> []" and "t < Min (hamming b ` set W)"
  shows "correct_barcode t W b = Inl NoWhitelistMatch"
proof -
  define d where "d = Min (hamming b ` set W)"
  from assms(2) have "d \<noteq> 0" "t < d" unfolding d_def by linarith+
  moreover have "nearest_distance b W = Some d"
    unfolding d_def by (rule nearest_distance_Min [OF assms(1)])
  ultimately show ?thesis
    by (simp add: correct_barcode_def)
qed

lemma whitelist_example_distances:
  "hamming ''ACGC'' ''ACGT'' = 1" "hamming ''ACGC'' ''ACGA'' = 1"
  "hamming ''ACGG'' ''ACGT'' = 1" "hamming ''ACGG'' ''ACGA'' = 1"
  by simp_all


text \<open>
  Claim C1 (as amended).  For a non-empty whitelist and threshold \<open>t\<close>: a barcode of
  the whitelist is returned unchanged with distance 0; a barcode whose minimum distance
  \<open>d\<close> to the whitelist is positive, at most \<open>t\<close> and attained by one entry only is
  corrected to that entry; when two distinct entries attain the minimum distance and it
  is at most \<open>t\<close>, the barcode is rejected as \<open>AmbiguousCorrection\<close>, which is another
  outcome than \<open>NoWhitelistMatch\<close>; when the minimum distance exceeds \<open>t\<close> the barcode is
  rejected as \<open>NoWhitelistMatch\<close>.  For the whitelist \<open>ACGT\<close>, \<open>ACGA\<close> and threshold 1
  the observed barcodes \<open>ACGC\<close> and \<open>ACGG\<close> are both at distance 1 from both entries,
  and both are rejected as \<open>AmbiguousCorrection\<close>.
\<close>

theorem barcode_correction_policy:
  assumes "W \<noteq> []"
  shows "(b0 \<in> set W \<longrightarrow> correct_barcode t W b0 = Inr (b0, 0))
   \<and> (0 < d1 \<and> d1 \<le> t \<and> d1 = Min (hamming b1 ` set W) \<and> w \<in> set W \<and> hamming b1 w = d1
        \<and> (\<forall>v \<in> set W. hamming b1 v = d1 \<longrightarrow> v = w)
      \<longrightarrow> correct_barcode t W b1 = Inr (w, d1))
   \<and> (d2 = Min (hamming b2 ` set W) \<and> d2 \<le> t \<and> w1 \<in> set W \<and> w2 \<in> set W \<and> w1 \<noteq> w2
        \<and> hamming b2 w1 = d2 \<and> hamming b2 w2 = d2
      \<longrightarrow> correct_barcode t W b2 = Inl AmbiguousCorrection)
   \<and> (t < Min (hamming b3 ` set W) \<longrightarrow> correct_barcode t W b3 = Inl NoWhitelistMatch)
   \<and> AmbiguousCorrection \<noteq> NoWhitelistMatch
   \<and> correct_barcode 1 [''ACGT'', ''ACGA''] ''ACGC'' = Inl AmbiguousCorrection
   \<and> correct_barcode 1 [''ACGT'', ''ACGA''] ''ACGG'' = Inl AmbiguousCorrection"
proof (intro conjI impI)
  assume "b0 \<in> set W"
  then show "correct_barcode t W b0 = Inr (b0, 0)"
    by (rule correct_in_whitelist)
next
  assume "0 < d1 \<and> d1 \<le> t \<and> d1 = Min (hamming b1 ` set W) \<and> w \<in> set W \<and> hamming b1 w = d1
        \<and> (\<forall>v \<in> set W. hamming b1 v = d1 \<longrightarrow> v = w)"
  with assms show "correct_barcode t W b1 = Inr (w, d1)"
    using correct_unique [of W d1 t b1 w] by blast
next
  assume "d2 = Min (hamming b2 ` set W) \<and> d2 \<le> t \<and> w1 \<in> set W \<and> w2 \<in> set W \<and> w1 \<noteq> w2
        \<and> hamming b2 w1 = d2 \<and> hamming b2 w2 = d2"
  with assms show "correct_barcode t W b2 = Inl AmbiguousCorrection"
    using correct_tie [of W d2 b2 t w1 w2] by blast
next
  assume "t < Min (hamming b3 ` set W)"
  with assms show "correct_barcode t W b3 = Inl NoWhitelistMatch"
    by (rule correct_too_far)
next
  show "AmbiguousCorrection \<noteq> NoWhitelistMatch" by simp
next
  show "correct_barcode 1 [''ACGT'', ''ACGA''] ''ACGC'' = Inl AmbiguousCorrection"
    by (simp add: correct_barcode_def nearest_entries_def)
next
  show "correct_barcode 1 [''ACGT'', ''ACGA''] ''ACGG'' = Inl AmbiguousCorrection"
    by (simp add: correct_barcode_def nearest_entries_def)
qed

theorem barcode_correction_policy_witness:
  "correct_barcode 1 [''ACGT'', ''ACGA''] ''ACGT'' = Inr (''ACGT'', 0)
   \<and> correct_barcode 1 [''ACGT'', ''AAAA''] ''ACGG'' = Inr (''ACGT'', 1)
   \<and> correct_barcode 1 [''ACGT'', ''ACGA''] ''ACGC'' = Inl AmbiguousCorrection
   \<and> correct_barcode 1 [''ACGT'', ''ACGA''] ''TTTA'' = Inl NoWhitelistMatch"
proof -
  have m1: "Min (hamming ''ACGG'' ` set [''ACGT'', ''AAAA'']) = 1" by simp
  have m2: "Min (hamming ''ACGC'' ` set [''ACGT'', ''ACGA'']) = 1" by simp
  have m3: "Min (hamming ''TTTA'' ` set [''ACGT'', ''ACGA'']) = 3" by simp
  have a: "correct_barcode 1 [''ACGT'', ''ACGA''] ''ACGT'' = Inr (''ACGT'', 0)"
    using barcode_correction_policy [of "[''ACGT'', ''ACGA'']" "''ACGT''" 1] by simp
  have b: "correct_barcode 1 [''ACGT'', ''AAAA''] ''ACGG'' = Inr (''ACGT'', 1)"
    using barcode_correction_policy [of "[''ACGT'', ''AAAA'']" _ 1 1 "''ACGG''" "''ACGT''"] m1
    by simp
  have c: "correct_barcode 1 [''ACGT'', ''ACGA''] ''ACGC'' = Inl AmbiguousCorrection"
    using barcode_correction_policy [of "[''ACGT'', ''ACGA'']" _ 1 _ _ _ 1 "''ACGC''"
        "''ACGT''" "''ACGA''"] m2
    by simp
  have d: "correct_barcode 1 [''ACGT'', ''ACGA''] ''TTTA'' = Inl NoWhitelistMatch"
    using barcode_correction_policy [of "[''ACGT'', ''ACGA'']" _ 1 _ _ _ _ _ _ _ "''TTTA''"] m3
    by simp
  from a b c d show ?thesis by blast
qed

text \<open>
  Claim C1 as stated fails in its example: \<open>ACGG\<close> differs from \<open>ACGA\<close> in its last base
  only, so it is at distance 1 from both entries of the whitelist and is not corrected
  to \<open>ACGT\<close>.
\<close>

theorem barcode_correction_tie_counterexample:
  "hamming ''ACGG'' ''ACGT'' = 1 \<and> hamming ''ACGG'' ''ACGA'' = 1
   \<and> correct_barcode 1 [''ACGT'', ''ACGA''] ''ACGG'' = Inl AmbiguousCorrection
   \<and> correct_barcode 1 [''ACGT'', ''ACGA''] ''ACGG'' \<noteq> Inr (''ACGT'', 1)"
  by (simp add: correct_barcode_def nearest_entries_def)


section \<open>Properties of UMI collapsing\<close>























end
